theory Spec2Isabelle
  imports Main "HOL-Library.AList"
begin

section \<open>Syntax-tree nodes\<close>

text \<open>
  The program reads the syntax tree that the acorn-jsx parser builds. Only the node
  kinds whose fields the program inspects get a constructor of their own; every other
  kind is \<open>Other\<close>, carrying the sub-nodes that the base walk of the parser library
  visits, in its visiting order. An \<open>Other\<close> node has none of the fields \<open>name\<close>,
  \<open>property\<close> and \<open>value\<close> that the program reads.

  A literal's value is textual or not (a number, a boolean, null, a regular expression).
  A call expression carries \<open>loc.start.line\<close>. A markup attribute's value is absent for
  an attribute written without \<open>=\<close>, as in \<open><input disabled />\<close>: the parser stores null.
\<close>

datatype literal_value = Str string | NonStr

datatype node =
    Literal literal_value
  | Identifier string
  | BinaryExpression string node node
  | MemberExpression node node bool
  | CallExpression node "node list" nat
  | JSXElement "node list" "node list"
  | JSXAttribute "node option"
  | JSXSpreadAttribute node
  | JSXExpressionContainer node
  | JSXEmptyExpression
  | Other "node list"

datatype error =
    TypeError
  | CouldNotParse "node option"
  | SyntaxError
  | InvalidPoFile

section \<open>String-literal analyzer\<close>

fun isStringLiteral :: "node \<Rightarrow> bool" where
  "isStringLiteral (Literal (Str s)) = True"
| "isStringLiteral _ = False"

fun isStrConcatExpr :: "node \<Rightarrow> bool" where
  "isStrConcatExpr (BinaryExpression operator left right) =
     (operator = ''+'' \<and>
      ((isStringLiteral left \<or> isStrConcatExpr left) \<and>
       (isStringLiteral right \<or> isStrConcatExpr right)))"
| "isStrConcatExpr _ = False"

definition isString :: "node \<Rightarrow> bool" where
  "isString n = (isStringLiteral n \<or> isStrConcatExpr n)"

text \<open>
  \<open>extractStr\<close> assumes a string literal or a concatenation of such; the program calls
  it only behind \<open>isString\<close>. On any other node the JavaScript recurses into undefined
  fields and raises; the model returns the empty string there and no theorem below
  reads that value.
\<close>

fun extractStr :: "node \<Rightarrow> string" where
  "extractStr (Literal (Str s)) = s"
| "extractStr (BinaryExpression operator left right) = extractStr left @ extractStr right"
| "extractStr _ = []"

section \<open>Call-site extractor\<close>

text \<open>
  \<open>name_of\<close> is the node's \<open>name\<close> field (identifiers have one) and \<open>property_of\<close> its
  \<open>property\<close> field (member expressions have one). A function name that the JavaScript
  computes as a non-string value (undefined, or a non-textual literal's value) is
  \<open>None\<close>: it is never equal to one of the allowed names, which are strings.
\<close>

fun name_of :: "node \<Rightarrow> string option" where
  "name_of (Identifier n) = Some n"
| "name_of _ = None"

fun property_of :: "node \<Rightarrow> node option" where
  "property_of (MemberExpression object property computed) = Some property"
| "property_of _ = None"

fun name_or_value :: "node \<Rightarrow> string option" where
  "name_or_value (Identifier n) = Some n"
| "name_or_value (Literal (Str s)) = Some s"
| "name_or_value _ = None"

fun getFunctionNameAndArguments :: "node \<Rightarrow> (string option \<times> node list) option" where
  "getFunctionNameAndArguments (CallExpression callee args ln) =
     (case callee of
        Identifier funcName \<Rightarrow> Some (Some funcName, args)
      | MemberExpression object property computed \<Rightarrow>
          (if name_of property = Some ''call'' then
             Some ((case name_of object of
                      Some n \<Rightarrow> Some n
                    | None \<Rightarrow> (case property_of object of
                                 Some prop \<Rightarrow> name_or_value prop
                               | None \<Rightarrow> None)),
                   drop 1 args)
           else Some (name_of property, args))
      | _ \<Rightarrow> None)"
| "getFunctionNameAndArguments _ = None"

text \<open>
  \<open>args[i]\<close> is undefined beyond the end of the argument list, and the program guards
  each use with \<open>arg && isString(arg)\<close>.
\<close>

definition nth_arg :: "node list \<Rightarrow> nat \<Rightarrow> node option" where
  "nth_arg args i = (if i < length args then Some (args ! i) else None)"

definition isString_arg :: "node option \<Rightarrow> bool" where
  "isString_arg a = (case a of None \<Rightarrow> False | Some n \<Rightarrow> isString n)"

text \<open>
  The result is \<open>Inl\<close> for the thrown error, \<open>Inr None\<close> where the JavaScript returns
  false or undefined, and \<open>Inr (Some msgids)\<close> for the returned array.
\<close>

definition maybeExtractMsgids :: "node \<Rightarrow> string list \<Rightarrow> bool \<Rightarrow> error + string list option" where
  "maybeExtractMsgids n allowedNames strict =
     (case getFunctionNameAndArguments n of
        None \<Rightarrow> Inr None
      | Some (None, args) \<Rightarrow> Inr None
      | Some (Some functionName, args) \<Rightarrow>
          (let firstArg = nth_arg args 0; secondArg = nth_arg args 1 in
           if functionName \<notin> set allowedNames then Inr None
           else if isString_arg firstArg \<and> take 1 functionName = ''n'' \<and> isString_arg secondArg
             then Inr (Some (map extractStr (take 2 args)))
           else if isString_arg firstArg
             then Inr (Some (map extractStr (take 1 args)))
           else if strict then Inl (CouldNotParse firstArg)
           else Inr None))"

section \<open>Catalog entries\<close>

text \<open>
  A string is a list of characters. A field holds \<open>None\<close> where the JavaScript object
  has no such property or holds undefined there. The comment record has the five fields
  the catalog-format library reads from a catalog file; extraction fills only
  \<open>extracted\<close> and \<open>reference\<close>.
\<close>

record comment_set =
  translator :: "string option"
  reference :: "string option"
  extracted :: "string option"
  flag :: "string option"
  previous :: "string option"

record entry =
  msgctxt :: "string option"
  msgid :: string
  msgid_plural :: "string option"
  msgstr :: "string list option"
  comments :: "comment_set option"

text \<open>
  A mapping from message-id to entry is an association list in the object's enumeration
  order, each key once. Keys are the object's own properties, and \<open>msgid in translations\<close>
  is a lookup among them: the model leaves aside the message-ids that name a member
  which every JavaScript object inherits, such as \<open>__proto__\<close>.
\<close>

type_synonym entries = "(string \<times> entry) list"

section \<open>Catalog merge helper\<close>

definition newline :: char where
  "newline = CHR 0x0A"

text \<open>\<open>s.split('\n')\<close>: never empty, the empty string splits into one empty line.\<close>

fun split_lines :: "string \<Rightarrow> string list" where
  "split_lines [] = [[]]"
| "split_lines (c # cs) =
     (if c = newline then [] # split_lines cs
      else (case split_lines cs of
              [] \<Rightarrow> [[c]]
            | l # ls \<Rightarrow> (c # l) # ls))"

text \<open>\<open>lines.join('\n')\<close>\<close>

fun join_lines :: "string list \<Rightarrow> string" where
  "join_lines [] = []"
| "join_lines [l] = l"
| "join_lines (l # m # ls) = l @ newline # join_lines (m # ls)"

text \<open>\<open>arr.indexOf(item)\<close>, with \<open>None\<close> for -1.\<close>

fun indexOf :: "'a list \<Rightarrow> 'a \<Rightarrow> nat option" where
  "indexOf [] item = None"
| "indexOf (x # xs) item =
     (if x = item then Some 0 else map_option Suc (indexOf xs item))"

definition deduplicateFilter :: "string \<Rightarrow> nat \<Rightarrow> string list \<Rightarrow> bool" where
  "deduplicateFilter item i arr = (item \<noteq> [] \<and> indexOf arr item = Some i)"

text \<open>\<open>arr.filter(f)\<close> for a callback that takes the item, its index and the array.\<close>

definition filter_indexed :: "('a \<Rightarrow> nat \<Rightarrow> 'a list \<Rightarrow> bool) \<Rightarrow> 'a list \<Rightarrow> 'a list" where
  "filter_indexed f arr = map fst (filter (\<lambda>(item, i). f item i arr) (zip arr [0..<length arr]))"

text \<open>\<open>a || b\<close> on optional strings: the empty string and undefined are falsy.\<close>

definition or_string :: "string option \<Rightarrow> string option \<Rightarrow> string option" where
  "or_string a b = (case a of Some (c # cs) \<Rightarrow> a | _ \<Rightarrow> b)"

definition mergeComment :: "string option \<Rightarrow> string option \<Rightarrow> string option" where
  "mergeComment oldComment newComment =
     (case (oldComment, newComment) of
        (Some old, Some new) \<Rightarrow>
          Some (join_lines (filter_indexed deduplicateFilter (split_lines old @ split_lines new)))
      | _ \<Rightarrow> or_string oldComment newComment)"

definition mergeComments :: "comment_set option \<Rightarrow> comment_set option \<Rightarrow> comment_set option" where
  "mergeComments oldComments newComments =
     (case (oldComments, newComments) of
        (Some old, Some new) \<Rightarrow>
          Some \<lparr> translator = None,
                 reference = mergeComment (reference old) (reference new),
                 extracted = mergeComment (extracted old) (extracted new),
                 flag = None,
                 previous = None \<rparr>
      | (Some old, None) \<Rightarrow> oldComments
      | (None, _) \<Rightarrow> newComments)"

text \<open>\<open>Object.assign\<close> field by field: a property of the later source wins.\<close>

definition assign :: "'a option \<Rightarrow> 'a option \<Rightarrow> 'a option" where
  "assign old new = (case new of None \<Rightarrow> old | Some v \<Rightarrow> new)"

definition mergeTranslation :: "entry \<Rightarrow> entry \<Rightarrow> entry" where
  "mergeTranslation oldTranslation newTranslation =
     \<lparr> msgctxt = assign (msgctxt oldTranslation) (msgctxt newTranslation),
       msgid = msgid newTranslation,
       msgid_plural = assign (msgid_plural oldTranslation) (msgid_plural newTranslation),
       msgstr = assign (msgstr oldTranslation) (msgstr newTranslation),
       comments = mergeComments (comments oldTranslation) (comments newTranslation) \<rparr>"

text \<open>
  \<open>JSON.parse(JSON.stringify(x))\<close> rebuilds a structurally equal value from strings,
  arrays and plain objects, and drops properties that hold undefined, which the model
  does not tell from absent ones. On the model's values the copy is the value itself.
\<close>

definition json_copy :: "'a \<Rightarrow> 'a" where
  "json_copy x = x"

definition merge_step :: "string \<times> entry \<Rightarrow> entries \<Rightarrow> entries" where
  "merge_step kv acc =
     (case map_of acc (fst kv) of
        Some existing \<Rightarrow> AList.update (fst kv) (mergeTranslation existing (snd kv)) acc
      | None \<Rightarrow> AList.update (fst kv) (snd kv) acc)"

definition mergeTranslations :: "entries \<Rightarrow> entries \<Rightarrow> entries" where
  "mergeTranslations oldTranslations newTranslations =
     fold merge_step newTranslations (json_copy oldTranslations)"

section \<open>Translation extractor\<close>

subsection \<open>Comment capture\<close>

text \<open>
  The parser reports every comment to \<open>onComment\<close> with its text (without the comment
  delimiters) and the line where it starts. The whitespace class of the regular
  expression and of \<open>trim\<close> is, among one-byte characters: tab, line feed, vertical tab,
  form feed, carriage return, space and no-break space.
\<close>

record comment_token =
  block :: bool
  content :: string
  start_line :: nat

record ast_comment =
  comment_line :: nat
  comment_value :: string

definition is_space :: "char \<Rightarrow> bool" where
  "is_space c = (c \<in> {CHR 0x09, CHR 0x0A, CHR 0x0B, CHR 0x0C, CHR 0x0D, CHR 0x20, CHR 0xA0})"

text \<open>
  \<open>commentRegex\<close> is \<open>^\s*TAG|^\/\<close> with the tag escaped, so that it stands for itself:
  the text matches when the tag follows some leading whitespace, or when the text starts
  with a slash.
\<close>

fun matches_tag :: "string \<Rightarrow> string \<Rightarrow> bool" where
  "matches_tag tag [] = (tag = [])"
| "matches_tag tag (c # cs) =
     (take (length tag) (c # cs) = tag \<or> (is_space c \<and> matches_tag tag cs))"

definition matches_commentRegex :: "string \<Rightarrow> string \<Rightarrow> bool" where
  "matches_commentRegex tag txt = (matches_tag tag txt \<or> take 1 txt = ''/'')"

text \<open>\<open>txt.replace(/^\//, '')\<close>\<close>

definition strip_slash :: "string \<Rightarrow> string" where
  "strip_slash txt = (if take 1 txt = ''/'' then drop 1 txt else txt)"

definition trim :: "string \<Rightarrow> string" where
  "trim txt = rev (dropWhile is_space (rev (dropWhile is_space txt)))"

definition onComment :: "string \<Rightarrow> comment_token \<Rightarrow> ast_comment list \<Rightarrow> ast_comment list" where
  "onComment tag tok astComments =
     (if matches_commentRegex tag (content tok) then
        (let txt = trim (strip_slash (content tok)) in
         if txt = [] then astComments
         else astComments @ [\<lparr> comment_line = start_line tok, comment_value = txt \<rparr>])
      else astComments)"

text \<open>
  \<open>findComments\<close>: the callback of \<open>map\<close> returns undefined for a comment on another
  line, and \<open>filter(Boolean)\<close> drops undefined and the empty string.
\<close>

definition findComments :: "ast_comment list \<Rightarrow> nat \<Rightarrow> string" where
  "findComments astComments ln =
     join_lines
       [v. Some v \<leftarrow>
             map (\<lambda>node. if comment_line node = ln \<or> comment_line node + 1 = ln
                          then Some (comment_value node) else None) astComments,
           v \<noteq> []]"

subsection \<open>Building an entry\<close>

text \<open>The decimal digits of a line number, as string concatenation writes a number.\<close>

fun string_of_nat :: "nat \<Rightarrow> string" where
  "string_of_nat n =
     (if n < 10 then [''0123456789'' ! n]
      else string_of_nat (n div 10) @ [''0123456789'' ! (n mod 10)])"

declare string_of_nat.simps [simp del]

definition new_translation :: "string \<Rightarrow> ast_comment list \<Rightarrow> nat \<Rightarrow> string \<Rightarrow> string list \<Rightarrow> entry" where
  "new_translation filename astComments ln first others =
     (let translation =
            \<lparr> msgctxt = None,
              msgid = first,
              msgid_plural = None,
              msgstr = Some [],
              comments = Some \<lparr> translator = None,
                                reference = Some (filename @ '':'' @ string_of_nat ln),
                                extracted = Some (findComments astComments ln),
                                flag = None,
                                previous = None \<rparr> \<rparr>
      in (case others of
            [] \<Rightarrow> translation
          | second # rest \<Rightarrow>
              translation\<lparr> msgid_plural := Some second, msgstr := Some [[], []] \<rparr>))"

text \<open>
  Per-file accumulation. For a msgid that is already in the file's mapping the program
  calls \<open>poHelper.mergeTranslation\<close>. The helper module exports \<open>mergeTranslations\<close>,
  \<open>readPoFile\<close> and \<open>defaultHeaders\<close>; its function \<open>mergeTranslation\<close> is local to it. So
  \<open>poHelper.mergeTranslation\<close> is undefined and the call raises a TypeError.
\<close>

definition accumulate :: "entry \<Rightarrow> entries \<Rightarrow> error + entries" where
  "accumulate translation acc =
     (case map_of acc (msgid translation) of
        Some existing \<Rightarrow> Inl TypeError
      | None \<Rightarrow> Inr (AList.update (msgid translation) translation acc))"

text \<open>
  The visitor table has one handler, for call expressions. The array of message strings
  that \<open>maybeExtractMsgids\<close> returns is never empty.
\<close>

fun visit :: "string \<Rightarrow> ast_comment list \<Rightarrow> string list \<Rightarrow> bool \<Rightarrow> node \<Rightarrow> entries \<Rightarrow> error + entries" where
  "visit filename astComments functionNames strict (CallExpression callee args ln) acc =
     (case maybeExtractMsgids (CallExpression callee args ln) functionNames strict of
        Inl e \<Rightarrow> Inl e
      | Inr None \<Rightarrow> Inr acc
      | Inr (Some []) \<Rightarrow> Inr acc
      | Inr (Some (first # others)) \<Rightarrow>
          accumulate (new_translation filename astComments ln first others) acc)"
| "visit filename astComments functionNames strict _ acc = Inr acc"

subsection \<open>The tree walk\<close>

text \<open>
  \<open>walk.simple\<close> of the parser library walks a node's sub-nodes by the rule table and
  then calls the visitor on the node. The rules for literals, identifiers, binary,
  member and call expressions are the library's; the five markup rules are the
  program's \<open>walkBase\<close>. Reading \<open>node.value.type\<close> of an attribute without a value
  raises a TypeError.
\<close>

fun isJSXExpressionContainer :: "node \<Rightarrow> bool" where
  "isJSXExpressionContainer (JSXExpressionContainer e) = True"
| "isJSXExpressionContainer _ = False"

fun walk :: "(node \<Rightarrow> 's \<Rightarrow> error + 's) \<Rightarrow> node \<Rightarrow> 's \<Rightarrow> error + 's"
  and walk_all :: "(node \<Rightarrow> 's \<Rightarrow> error + 's) \<Rightarrow> node list \<Rightarrow> 's \<Rightarrow> error + 's"
where
  "walk f (Literal v) st = f (Literal v) st"
| "walk f (Identifier n) st = f (Identifier n) st"
| "walk f (BinaryExpression operator left right) st =
     (case walk f left st of
        Inl e \<Rightarrow> Inl e
      | Inr st1 \<Rightarrow>
          (case walk f right st1 of
             Inl e \<Rightarrow> Inl e
           | Inr st2 \<Rightarrow> f (BinaryExpression operator left right) st2))"
| "walk f (MemberExpression object property computed) st =
     (case walk f object st of
        Inl e \<Rightarrow> Inl e
      | Inr st1 \<Rightarrow>
          (case (if computed then walk f property st1 else Inr st1) of
             Inl e \<Rightarrow> Inl e
           | Inr st2 \<Rightarrow> f (MemberExpression object property computed) st2))"
| "walk f (CallExpression callee args ln) st =
     (case walk f callee st of
        Inl e \<Rightarrow> Inl e
      | Inr st1 \<Rightarrow>
          (case walk_all f args st1 of
             Inl e \<Rightarrow> Inl e
           | Inr st2 \<Rightarrow> f (CallExpression callee args ln) st2))"
| "walk f (JSXElement attributes children) st =
     (case walk_all f attributes st of
        Inl e \<Rightarrow> Inl e
      | Inr st1 \<Rightarrow>
          (case walk_all f children st1 of
             Inl e \<Rightarrow> Inl e
           | Inr st2 \<Rightarrow> f (JSXElement attributes children) st2))"
| "walk f (JSXAttribute v) st =
     (case v of
        None \<Rightarrow> Inl TypeError
      | Some x \<Rightarrow>
          (case (if isJSXExpressionContainer x then walk f x st else Inr st) of
             Inl e \<Rightarrow> Inl e
           | Inr st1 \<Rightarrow> f (JSXAttribute v) st1))"
| "walk f (JSXSpreadAttribute argument) st =
     (case walk f argument st of
        Inl e \<Rightarrow> Inl e
      | Inr st1 \<Rightarrow> f (JSXSpreadAttribute argument) st1)"
| "walk f (JSXExpressionContainer expression) st =
     (case walk f expression st of
        Inl e \<Rightarrow> Inl e
      | Inr st1 \<Rightarrow> f (JSXExpressionContainer expression) st1)"
| "walk f JSXEmptyExpression st = f JSXEmptyExpression st"
| "walk f (Other subnodes) st =
     (case walk_all f subnodes st of
        Inl e \<Rightarrow> Inl e
      | Inr st1 \<Rightarrow> f (Other subnodes) st1)"
| "walk_all f [] st = Inr st"
| "walk_all f (n # ns) st =
     (case walk f n st of
        Inl e \<Rightarrow> Inl e
      | Inr st1 \<Rightarrow> walk_all f ns st1)"

subsection \<open>One file\<close>

text \<open>
  A source file enters as what the parser makes of it after the leading hash-bang line
  is removed: a syntax error, or the comments in source order and the syntax tree.
\<close>

datatype source = Unparsable | Parsed "comment_token list" node

definition parseFile :: "string \<Rightarrow> source \<Rightarrow> string \<Rightarrow> string list \<Rightarrow> bool \<Rightarrow> error + entries" where
  "parseFile filename src tag functionNames strict =
     (case src of
        Unparsable \<Rightarrow> Inl SyntaxError
      | Parsed tokens ast \<Rightarrow>
          (let astComments = fold (onComment tag) tokens []
           in walk (visit filename astComments functionNames strict) ast []))"

section \<open>Catalog and options\<close>

text \<open>
  The \<open>translations\<close> field of a catalog, here \<open>contexts\<close>, maps a context to a mapping of
  entries; it is \<open>None\<close> where a loaded catalog has no object there. Header values are
  optional: the bug-report address of the default headers is whatever the caller
  supplied. The field \<open>output_name\<close> of the options is the option \<open>output\<close>.
\<close>

record catalog =
  charset :: string
  headers :: "(string \<times> string option) list"
  contexts :: "(string \<times> entries) list option"

record options =
  joinExisting :: bool
  outputDir :: "string option"
  output_name :: "string option"
  keyword :: "string list option"
  addComments :: "string option"
  sanity :: bool
  projectIdVersion :: "string option"
  reportBugsTo :: "string option"

text \<open>
  What the run reads from outside: what reading and parsing the catalog file at the
  output path does (it throws or returns a catalog), and the formatted current time at
  the two places that ask for it. The output path is joined from \<open>outputDir\<close> and
  \<open>output\<close> before the read; \<open>path.join\<close> raises a TypeError when \<open>output\<close> is missing.
\<close>

datatype 'a outcome = Throws | Returns 'a

record environment =
  catalog_file :: "catalog outcome"
  date_at_start :: string
  date_at_end :: string

section \<open>Catalog I/O adapter\<close>

definition readPoFile :: "environment \<Rightarrow> catalog option" where
  "readPoFile env = (case catalog_file env of Throws \<Rightarrow> None | Returns poJSON \<Rightarrow> Some poJSON)"

definition defaultHeaders :: "environment \<Rightarrow> string option \<Rightarrow> string option \<Rightarrow> (string \<times> string option) list" where
  "defaultHeaders env projectIdVersion' reportBugsTo' =
     [(''project-id-version'', Some (case projectIdVersion' of Some (c # cs) \<Rightarrow> c # cs | _ \<Rightarrow> ''PACKAGE VERSION'')),
      (''language-team'', Some ''LANGUAGE <LL@li.org>''),
      (''report-msgid-bugs-to'', reportBugsTo'),
      (''pot-creation-date'', Some (date_at_start env)),
      (''po-revision-date'', Some ''YEAR-MO-DA HO:MI+ZONE''),
      (''language'', Some []),
      (''mime-version'', Some ''1.0''),
      (''content-type'', Some ''text/plain; charset=utf-8''),
      (''content-transfer-encoding'', Some ''8bit'')]"

text \<open>
  Modelled from the spec: \<open>compareTranslations\<close> of the merge helper, which the
  orchestrator calls and whose body is not among the sources. The specification has the
  creation date refreshed when the accumulator differs from the loaded entries by
  structural inequality, not by reference.
\<close>

definition compareTranslations :: "entries \<Rightarrow> entries \<Rightarrow> bool" where
  "compareTranslations a b = (a \<noteq> b)"

section \<open>Extraction orchestrator\<close>

definition fresh_catalog :: "environment \<Rightarrow> options \<Rightarrow> catalog" where
  "fresh_catalog env opts =
     \<lparr> charset = ''utf-8'',
       headers = defaultHeaders env (projectIdVersion opts) (reportBugsTo opts),
       contexts = Some [([], [])] \<rparr>"

text \<open>
  The keyword list is written into the caller's options object: a supplied list gets
  the n-prefixed alias of each of its entries appended in place, a missing one is set to
  the two default names.
\<close>

definition set_keyword :: "options \<Rightarrow> options" where
  "set_keyword opts =
     (case keyword opts of
        Some ks \<Rightarrow> opts\<lparr> keyword := Some (ks @ map (\<lambda>k. ''n'' @ k) ks) \<rparr>
      | None \<Rightarrow> opts\<lparr> keyword := Some [''gettext'', ''ngettext''] \<rparr>)"

definition tagName :: "options \<Rightarrow> string" where
  "tagName opts = (case addComments opts of Some (c # cs) \<Rightarrow> c # cs | _ \<Rightarrow> ''L10n:'')"

definition keyword_list :: "options \<Rightarrow> string list" where
  "keyword_list opts = (case keyword opts of Some ks \<Rightarrow> ks | None \<Rightarrow> [])"

fun extract_files :: "string \<Rightarrow> string list \<Rightarrow> bool \<Rightarrow> (string \<times> source) list \<Rightarrow> entries \<Rightarrow> error + entries" where
  "extract_files tag names strict [] acc = Inr acc"
| "extract_files tag names strict ((filename, src) # sources) acc =
     (case parseFile filename src tag names strict of
        Inl e \<Rightarrow> Inl e
      | Inr newTranslations \<Rightarrow>
          extract_files tag names strict sources (mergeTranslations acc newTranslations))"

text \<open>
  \<open>parse\<close> returns the options object as the call leaves it, and the thrown error or
  the returned catalog. A loaded catalog without a default context makes
  \<open>JSON.parse(undefined)\<close> raise a SyntaxError.
\<close>

definition starting_catalog :: "environment \<Rightarrow> options \<Rightarrow> catalog" where
  "starting_catalog env opts =
     (case (if joinExisting opts then readPoFile env else None) of
        None \<Rightarrow> fresh_catalog env opts
      | Some loaded \<Rightarrow> loaded)"

definition parse :: "environment \<Rightarrow> (string \<times> source) list \<Rightarrow> options \<Rightarrow> options \<times> (error + catalog)" where
  "parse env sources opts =
     (let useExisting = joinExisting opts in
      if useExisting \<and> output_name opts = None then (opts, Inl TypeError)
      else
        (let poJSON = starting_catalog env opts in
         case contexts poJSON of
           None \<Rightarrow> (opts, Inl InvalidPoFile)
         | Some ctxs \<Rightarrow>
             (case map_of ctxs [] of
                None \<Rightarrow> (opts, Inl SyntaxError)
              | Some original \<Rightarrow>
                  (let opts' = set_keyword opts
                   in case extract_files (tagName opts') (keyword_list opts') (sanity opts')
                             sources (json_copy original) of
                        Inl e \<Rightarrow> (opts', Inl e)
                      | Inr merged \<Rightarrow>
                          (opts',
                           Inr (poJSON\<lparr>
                                  headers :=
                                    (if useExisting \<and> compareTranslations merged original
                                     then AList.update ''pot-creation-date'' (Some (date_at_end env))
                                            (headers poJSON)
                                     else headers poJSON),
                                  contexts := Some (AList.update [] merged ctxs) \<rparr>))))))"

section \<open>Predicates of the specification\<close>

text \<open>
  The sub-nodes that the walk enters from a node, in its order: this is the rule table
  read as a function. An attribute without a value has none; the walk raises there.
\<close>

fun walked_children :: "node \<Rightarrow> node list" where
  "walked_children (Literal v) = []"
| "walked_children (Identifier n) = []"
| "walked_children (BinaryExpression operator left right) = [left, right]"
| "walked_children (MemberExpression object property computed) =
     (if computed then [object, property] else [object])"
| "walked_children (CallExpression callee args ln) = callee # args"
| "walked_children (JSXElement attributes children) = attributes @ children"
| "walked_children (JSXAttribute v) =
     (case v of
        None \<Rightarrow> []
      | Some x \<Rightarrow> if isJSXExpressionContainer x then [x] else [])"
| "walked_children (JSXSpreadAttribute argument) = [argument]"
| "walked_children (JSXExpressionContainer expression) = [expression]"
| "walked_children JSXEmptyExpression = []"
| "walked_children (Other subnodes) = subnodes"

text \<open>
  \<open>walked c n\<close>: the node \<open>c\<close> is \<open>n\<close> itself or lies below \<open>n\<close> along the edges that the
  walk follows. Through markup these are the edges from an element to its attributes and
  to its children, from an attribute to its value when that is an expression container,
  from a spread attribute to its argument and from an expression container to its
  expression.
\<close>

inductive walked :: "node \<Rightarrow> node \<Rightarrow> bool" where
  self: "walked n n"
| below: "m \<in> set (walked_children n) \<Longrightarrow> walked c m \<Longrightarrow> walked c n"

text \<open>
  What every entry built by extraction looks like: it is filed under its own message-id,
  has no context, carries an empty \<open>msgstr\<close> array or two empty strings, and a comment
  record with exactly the reference and the extracted comment. A mapping built by
  extraction has each key once and only such entries.
\<close>

definition extracted_entry :: "string \<Rightarrow> entry \<Rightarrow> bool" where
  "extracted_entry k e =
     (msgid e = k \<and> msgctxt e = None \<and> (msgstr e = Some [] \<or> msgstr e = Some [[], []]) \<and>
      (case comments e of
         None \<Rightarrow> False
       | Some c \<Rightarrow> translator c = None \<and> reference c \<noteq> None \<and> extracted c \<noteq> None \<and>
                   flag c = None \<and> previous c = None))"

definition extracted_entries :: "entries \<Rightarrow> bool" where
  "extracted_entries T = (distinct (map fst T) \<and> list_all (\<lambda>(k, e). extracted_entry k e) T)"

text \<open>
  A comment text with its empty lines and its repeated lines dropped, as \<open>mergeComment\<close>
  leaves a text that is merged with itself; and an entry with both its comment texts
  treated so.
\<close>

definition unique_lines :: "string \<Rightarrow> string" where
  "unique_lines s = join_lines (filter_indexed deduplicateFilter (split_lines s))"

definition merged_with_itself :: "entry \<Rightarrow> entry" where
  "merged_with_itself e =
     e\<lparr> comments :=
          map_option (\<lambda>c. c\<lparr> reference := map_option unique_lines (reference c),
                               extracted := map_option unique_lines (extracted c) \<rparr>)
            (comments e) \<rparr>"

section \<open>Example inputs\<close>

text \<open>
  The inputs at which the theorems below are evaluated: the calls
  \<open>gettext("hello")\<close> on line 2 and \<open>ngettext("1 item", "N items", n)\<close> on line 1, a
  program of expression statements, and a translated catalog entry.
\<close>

definition example_names :: "string list" where
  "example_names = [''gettext'', ''ngettext'']"

definition example_hello :: node where
  "example_hello = CallExpression (Identifier ''gettext'') [Literal (Str ''hello'')] 2"


definition example_program :: "node list \<Rightarrow> node" where
  "example_program expressions = Other (map (\<lambda>e. Other [e]) expressions)"

definition example_entry :: "string \<Rightarrow> string list \<Rightarrow> entry" where
  "example_entry m strs =
     \<lparr> msgctxt = None, msgid = m, msgid_plural = None, msgstr = Some strs, comments = None \<rparr>"

text \<open>
  A run's options with \<open>joinExisting\<close> set and no keyword list, an environment with a
  given catalog file and two clock readings, and a loaded catalog with one entry.
\<close>

definition example_options :: options where
  "example_options =
     \<lparr> joinExisting = True, outputDir = None, output_name = Some ''messages.pot'', keyword = None,
       addComments = None, sanity = False, projectIdVersion = None, reportBugsTo = None \<rparr>"

definition example_environment :: "catalog outcome \<Rightarrow> environment" where
  "example_environment file =
     \<lparr> catalog_file = file, date_at_start = ''2016-01-01 10:00+0000'', date_at_end = ''2016-01-01 10:01+0000'' \<rparr>"


text \<open>
  A file that has the comment \<open>// L10n: note\<close> on line 1 and again on line 2, after the
  call \<open>gettext("hello")\<close>; and the entry that extraction builds from it.
\<close>

definition example_noted :: source where
  "example_noted =
     Parsed [\<lparr> block = False, content = '' L10n: note'', start_line = 1 \<rparr>,
             \<lparr> block = False, content = '' L10n: note'', start_line = 2 \<rparr>]
       (example_program [example_hello])"

definition example_noted_entry :: entry where
  "example_noted_entry =
     new_translation ''f.js''
       [\<lparr> comment_line = 1, comment_value = ''L10n: note'' \<rparr>,
        \<lparr> comment_line = 2, comment_value = ''L10n: note'' \<rparr>] 2 ''hello'' []"

text \<open>The call \<open>gettext("hello")\<close> once more, on line 5.\<close>

definition example_hello_again :: node where
  "example_hello_again = CallExpression (Identifier ''gettext'') [Literal (Str ''hello'')] 5"

text \<open>
  A markup element with the given attributes and the child \<open>{gettext("bye")}\<close> on line 3.
\<close>

definition example_markup :: "node list \<Rightarrow> node" where
  "example_markup attributes =
     example_program
       [JSXElement attributes
          [JSXExpressionContainer (CallExpression (Identifier ''gettext'') [Literal (Str ''bye'')] 3)]]"

section \<open>Theorems\<close>

subsection \<open>Merging two mappings of entries\<close>

lemma merge_step_keys: "fst ` set (merge_step kv acc) = insert (fst kv) (fst ` set acc)"
  by (simp add: merge_step_def dom_update split: option.splits)

lemma fold_merge_step_keys:
  "fst ` set (fold merge_step new acc) = fst ` set acc \<union> fst ` set new"
  by (induction new arbitrary: acc) (auto simp: merge_step_keys)

lemma map_of_merge_step_other:
  "k \<noteq> fst kv \<Longrightarrow> map_of (merge_step kv acc) k = map_of acc k"
  by (simp add: merge_step_def update_conv' split: option.splits)

lemma map_of_merge_step_same:
  "map_of (merge_step kv acc) (fst kv) =
     Some (case map_of acc (fst kv) of None \<Rightarrow> snd kv | Some existing \<Rightarrow> mergeTranslation existing (snd kv))"
  by (simp add: merge_step_def update_conv' split: option.splits)

lemma map_of_fold_merge_step_absent:
  "k \<notin> fst ` set new \<Longrightarrow> map_of (fold merge_step new acc) k = map_of acc k"
  by (induction new arbitrary: acc) (auto simp: map_of_merge_step_other)

lemma map_of_fold_merge_step_present:
  "distinct (map fst new) \<Longrightarrow> map_of new k = Some n \<Longrightarrow>
   map_of (fold merge_step new acc) k =
     Some (case map_of acc k of None \<Rightarrow> n | Some existing \<Rightarrow> mergeTranslation existing n)"
proof (induction new arbitrary: acc)
  case Nil
  then show ?case by simp
next
  case (Cons kv new)
  show ?case
  proof (cases "fst kv = k")
    case True
    with Cons.prems have n: "snd kv = n" and absent: "k \<notin> fst ` set new"
      by (cases kv; auto)+
    have "map_of (fold merge_step new (merge_step kv acc)) k = map_of (merge_step kv acc) k"
      using absent by (rule map_of_fold_merge_step_absent)
    also have "\<dots> = Some (case map_of acc k of None \<Rightarrow> n | Some existing \<Rightarrow> mergeTranslation existing n)"
      using map_of_merge_step_same [of kv acc] unfolding True n .
    finally show ?thesis by simp
  next
    case False
    with Cons.prems have "distinct (map fst new)" and "map_of new k = Some n"
      by (cases kv; auto)+
    then have "map_of (fold merge_step new (merge_step kv acc)) k =
      Some (case map_of (merge_step kv acc) k of None \<Rightarrow> n | Some existing \<Rightarrow> mergeTranslation existing n)"
      by (rule Cons.IH)
    then show ?thesis
      using False by (simp add: map_of_merge_step_other)
  qed
qed


subsection \<open>Plural, singular, strict failure and silent skip\<close>

text \<open>
  C3. For a call site whose resolved name is one of the allowed function names: when the
  name begins with n and the first and second arguments both qualify as strings, two
  message strings are extracted; otherwise, when the first argument qualifies, one is
  extracted; otherwise the extraction raises an error that carries the first argument
  when strict mode is on, and returns nothing when it is off.
\<close>

theorem maybeExtractMsgids_allowed:
  assumes "getFunctionNameAndArguments n = Some (Some name, args)"
    and "name \<in> set allowedNames"
  shows "maybeExtractMsgids n allowedNames strict =
     (if take 1 name = ''n'' \<and> isString_arg (nth_arg args 0) \<and> isString_arg (nth_arg args 1)
        then Inr (Some [extractStr (args ! 0), extractStr (args ! 1)])
      else if isString_arg (nth_arg args 0)
        then Inr (Some [extractStr (args ! 0)])
      else if strict then Inl (CouldNotParse (nth_arg args 0))
      else Inr None)"
proof -
  have two: "map extractStr (take 2 args) = [extractStr (args ! 0), extractStr (args ! 1)]"
    if "isString_arg (nth_arg args 1)"
    using that by (cases args; cases "tl args") (auto simp: isString_arg_def nth_arg_def split: if_splits)
  have one: "map extractStr (take 1 args) = [extractStr (args ! 0)]"
    if "isString_arg (nth_arg args 0)"
    using that by (cases args) (auto simp: isString_arg_def nth_arg_def split: if_splits)
  show ?thesis
    using assms two one by (simp add: maybeExtractMsgids_def Let_def)
qed

theorem maybeExtractMsgids_allowed_witness:
  "getFunctionNameAndArguments
     (CallExpression (Identifier ''ngettext'')
        [Literal (Str ''1 item''), Literal (Str ''N items''), Identifier ''n''] 1)
     = Some (Some ''ngettext'', [Literal (Str ''1 item''), Literal (Str ''N items''), Identifier ''n''])
   \<and> ''ngettext'' \<in> set [''gettext'', ''ngettext'']
   \<and> maybeExtractMsgids
     (CallExpression (Identifier ''ngettext'')
        [Literal (Str ''1 item''), Literal (Str ''N items''), Identifier ''n''] 1)
     [''gettext'', ''ngettext''] True = Inr (Some [''1 item'', ''N items''])
   \<and> getFunctionNameAndArguments (CallExpression (Identifier ''gettext'') [Identifier ''x''] 1)
     = Some (Some ''gettext'', [Identifier ''x''])
   \<and> ''gettext'' \<in> set [''gettext'', ''ngettext'']
   \<and> maybeExtractMsgids (CallExpression (Identifier ''gettext'') [Identifier ''x''] 1)
       [''gettext'', ''ngettext''] True = Inl (CouldNotParse (Some (Identifier ''x'')))
   \<and> maybeExtractMsgids (CallExpression (Identifier ''gettext'') [Identifier ''x''] 1)
       [''gettext'', ''ngettext''] False = Inr None"
  using maybeExtractMsgids_allowed [of
     "CallExpression (Identifier ''ngettext'')
        [Literal (Str ''1 item''), Literal (Str ''N items''), Identifier ''n''] 1"
     "''ngettext''" "[Literal (Str ''1 item''), Literal (Str ''N items''), Identifier ''n'']"
     "[''gettext'', ''ngettext'']" True]
    maybeExtractMsgids_allowed [of
     "CallExpression (Identifier ''gettext'') [Identifier ''x''] 1"
     "''gettext''" "[Identifier ''x'']" "[''gettext'', ''ngettext'']" True]
    maybeExtractMsgids_allowed [of
     "CallExpression (Identifier ''gettext'') [Identifier ''x''] 1"
     "''gettext''" "[Identifier ''x'']" "[''gettext'', ''ngettext'']" False]
  by (simp add: isString_arg_def nth_arg_def isString_def)

subsection \<open>The tree walk, node by node\<close>

lemma bind_InrE:
  assumes "(case m of Inl e \<Rightarrow> Inl e | Inr s \<Rightarrow> g s) = Inr s'"
  obtains s1 where "m = Inr s1" and "g s1 = Inr s'"
  using assms by (cases m) auto

lemma walk_all_append:
  "walk_all f (xs @ ys) st = (case walk_all f xs st of Inl e \<Rightarrow> Inl e | Inr s \<Rightarrow> walk_all f ys s)"
  by (induction xs arbitrary: st) (auto split: sum.splits)

lemma walk_unfold:
  "walk f n st =
     (if n = JSXAttribute None then Inl TypeError
      else case walk_all f (walked_children n) st of Inl e \<Rightarrow> Inl e | Inr s \<Rightarrow> f n s)"
proof (cases n)
  case (JSXElement attributes children)
  then show ?thesis by (simp add: walk_all_append split: sum.splits)
next
  case (JSXAttribute v)
  then show ?thesis by (cases v) (simp_all split: sum.splits)
qed (simp_all split: sum.splits)

lemma size_walked_children: "m \<in> set (walked_children n) \<Longrightarrow> size m < size n"
proof (cases n)
  case (CallExpression callee args ln)
  assume "m \<in> set (walked_children n)"
  with CallExpression show ?thesis
    by (auto dest: size_list_estimation' [where f = size] simp: less_Suc_eq_le)
next
  case (JSXElement attributes children)
  assume "m \<in> set (walked_children n)"
  with JSXElement show ?thesis
    by (auto dest: size_list_estimation' [where f = size] simp: less_Suc_eq_le)
next
  case (Other subnodes)
  assume "m \<in> set (walked_children n)"
  with Other show ?thesis
    by (auto dest: size_list_estimation' [where f = size] simp: less_Suc_eq_le)
next
  case (JSXAttribute v)
  assume "m \<in> set (walked_children n)"
  with JSXAttribute show ?thesis
    by (cases v) (auto split: if_splits)
qed (auto split: if_splits)

lemma walk_induct [case_names node]:
  assumes "\<And>n. (\<And>m. m \<in> set (walked_children n) \<Longrightarrow> P m) \<Longrightarrow> P n"
  shows "P n"
proof (induction n rule: measure_induct_rule [where f = size])
  case (less n)
  show ?case
    by (rule assms) (rule less, rule size_walked_children)
qed

lemma walk_all_invariant:
  assumes "\<And>m s s'. m \<in> set ns \<Longrightarrow> P s \<Longrightarrow> walk f m s = Inr s' \<Longrightarrow> P s'"
    and "P st" and "walk_all f ns st = Inr st'"
  shows "P st'"
  using assms
proof (induction ns arbitrary: st)
  case Nil
  then show ?case by simp
next
  case (Cons n ns)
  from Cons.prems(3) obtain s1 where n: "walk f n st = Inr s1" and ns: "walk_all f ns s1 = Inr st'"
    by (auto elim: bind_InrE)
  have s1: "P s1" using Cons.prems(1) [of n st s1] Cons.prems(2) n by simp
  have rest: "\<And>m s s'. m \<in> set ns \<Longrightarrow> P s \<Longrightarrow> walk f m s = Inr s' \<Longrightarrow> P s'"
    using Cons.prems(1) by (meson list.set_intros(2))
  show ?case by (rule Cons.IH [OF rest s1 ns])
qed

lemma walk_invariant:
  assumes step: "\<And>n s s'. P s \<Longrightarrow> f n s = Inr s' \<Longrightarrow> P s'"
  shows "P st \<Longrightarrow> walk f n st = Inr st' \<Longrightarrow> P st'"
proof (induction n arbitrary: st st' rule: walk_induct)
  case (node n)
  from node.prems(2) obtain s1 where
    children: "walk_all f (walked_children n) st = Inr s1" and self: "f n s1 = Inr st'"
    by (subst (asm) walk_unfold) (auto split: if_splits elim: bind_InrE)
  have "P s1"
    using node.IH node.prems(1) children by (rule walk_all_invariant)
  then show ?case using self by (rule step)
qed

subsection \<open>What extraction builds\<close>

lemma set_update_cases: "x \<in> set (AList.update k v al) \<Longrightarrow> x = (k, v) \<or> x \<in> set al"
  by (induction al) (auto split: if_splits)

lemma accumulate_extracted:
  assumes "extracted_entries acc" and "extracted_entry (msgid t) t"
    and "accumulate t acc = Inr acc'"
  shows "extracted_entries acc'"
proof -
  from assms(1) have d: "distinct (map fst acc)" and a: "\<And>k e. (k, e) \<in> set acc \<Longrightarrow> extracted_entry k e"
    by (auto simp: extracted_entries_def list_all_iff)
  from assms(3) have eq: "acc' = AList.update (msgid t) t acc"
    by (auto simp: accumulate_def split: option.splits)
  show ?thesis
    unfolding eq extracted_entries_def list_all_iff
    using d a assms(2) by (auto simp: distinct_update dest!: set_update_cases)
qed

lemma new_translation_extracted:
  "extracted_entry first (new_translation filename astComments ln first others)"
  by (cases others) (simp_all add: extracted_entry_def new_translation_def)

lemma new_translation_msgid [simp]:
  "msgid (new_translation filename astComments ln first others) = first"
  by (cases others) (simp_all add: new_translation_def)

lemma visit_extracted:
  assumes "extracted_entries acc" and "visit filename astComments names strict n acc = Inr acc'"
  shows "extracted_entries acc'"
proof (cases n)
  case (CallExpression callee args ln)
  show ?thesis
  proof (cases "maybeExtractMsgids n names strict")
    case (Inl e)
    with assms(2) CallExpression show ?thesis by simp
  next
    case (Inr r)
    show ?thesis
    proof (cases r)
      case None
      with assms Inr CallExpression show ?thesis by simp
    next
      case (Some msgids)
      show ?thesis
      proof (cases msgids)
        case Nil
        with assms Inr Some CallExpression show ?thesis by simp
      next
        case (Cons first others)
        with assms(2) Inr Some CallExpression
        have "accumulate (new_translation filename astComments ln first others) acc = Inr acc'"
          by simp
        then show ?thesis
          using accumulate_extracted [OF assms(1), of "new_translation filename astComments ln first others" acc']
            new_translation_extracted [of first filename astComments ln others]
          by simp
      qed
    qed
  qed
qed (use assms in simp_all)

lemma parseFile_extracted:
  assumes "parseFile filename src tag names strict = Inr T"
  shows "extracted_entries T"
proof (cases src)
  case Unparsable
  with assms show ?thesis by (simp add: parseFile_def)
next
  case (Parsed tokens ast)
  with assms have w: "walk (visit filename (fold (onComment tag) tokens []) names strict) ast [] = Inr T"
    by (simp add: parseFile_def)
  have "extracted_entries []" by (simp add: extracted_entries_def)
  then show ?thesis
    using w by (rule walk_invariant [where P = extracted_entries, rotated]) (rule visit_extracted)
qed

subsection \<open>The merged mapping never shrinks\<close>

text \<open>
  C8. For two mappings of entries, the new one with each message-id once: the key set of
  \<open>mergeTranslations old new\<close> contains the key set of \<open>old\<close>; every old entry whose
  message-id is absent from the new mapping is in the result unchanged; every entry
  whose message-id is only in the new mapping is in the result as it is.
\<close>

theorem mergeTranslations_keeps:
  assumes "distinct (map fst newTranslations)"
  shows "fst ` set oldTranslations \<subseteq> fst ` set (mergeTranslations oldTranslations newTranslations)
    \<and> (\<forall>k e. map_of oldTranslations k = Some e \<and> map_of newTranslations k = None \<longrightarrow>
          map_of (mergeTranslations oldTranslations newTranslations) k = Some e)
    \<and> (\<forall>k e. map_of newTranslations k = Some e \<and> map_of oldTranslations k = None \<longrightarrow>
          map_of (mergeTranslations oldTranslations newTranslations) k = Some e)"
proof (intro conjI allI impI)
  show "fst ` set oldTranslations \<subseteq> fst ` set (mergeTranslations oldTranslations newTranslations)"
    by (simp add: mergeTranslations_def json_copy_def fold_merge_step_keys)
next
  fix k e
  assume "map_of oldTranslations k = Some e \<and> map_of newTranslations k = None"
  then show "map_of (mergeTranslations oldTranslations newTranslations) k = Some e"
    by (simp add: mergeTranslations_def json_copy_def map_of_fold_merge_step_absent map_of_eq_None_iff)
next
  fix k e
  assume "map_of newTranslations k = Some e \<and> map_of oldTranslations k = None"
  then have "map_of newTranslations k = Some e" and "map_of oldTranslations k = None"
    by simp_all
  then show "map_of (mergeTranslations oldTranslations newTranslations) k = Some e"
    unfolding mergeTranslations_def json_copy_def
    using map_of_fold_merge_step_present [OF assms, of k e oldTranslations] by simp
qed


theorem mergeTranslations_keeps_witness:
  "distinct (map fst [(''b'', example_entry ''b'' [])])
   \<and> fst ` set [(''a'', example_entry ''a'' [''A''])]
       \<subseteq> fst ` set (mergeTranslations [(''a'', example_entry ''a'' [''A''])] [(''b'', example_entry ''b'' [])])
   \<and> map_of [(''a'', example_entry ''a'' [''A''])] ''a'' = Some (example_entry ''a'' [''A''])
   \<and> map_of [(''b'', example_entry ''b'' [])] ''a'' = None
   \<and> map_of (mergeTranslations [(''a'', example_entry ''a'' [''A''])] [(''b'', example_entry ''b'' [])]) ''a''
       = Some (example_entry ''a'' [''A''])
   \<and> map_of [(''b'', example_entry ''b'' [])] ''b'' = Some (example_entry ''b'' [])
   \<and> map_of [(''a'', example_entry ''a'' [''A''])] ''b'' = None
   \<and> map_of (mergeTranslations [(''a'', example_entry ''a'' [''A''])] [(''b'', example_entry ''b'' [])]) ''b''
       = Some (example_entry ''b'' [])"
  using mergeTranslations_keeps [of "[(''b'', example_entry ''b'' [])]" "[(''a'', example_entry ''a'' [''A''])]"]
  by simp

subsection \<open>Merging extraction results into a translated catalog\<close>

text \<open>
  C1, as the code has it. \<open>mergeTranslation\<close> lets the fields of the new entry win, and
  every extracted entry carries a \<open>msgstr\<close>. So, merging the result of \<open>parseFile\<close> into
  an existing mapping: an old entry whose message-id is not extracted again is in the
  result unchanged, and for a message-id that is extracted again the merged \<open>msgstr\<close> is
  the extracted entry's own (the empty array, or two empty strings), whatever the old
  entry held. No message-id of the old mapping is dropped.
\<close>

theorem merge_extracted_msgstr:
  assumes "parseFile filename src tag names strict = Inr newTranslations"
    and "map_of oldTranslations k = Some old"
  shows "\<exists>merged. map_of (mergeTranslations oldTranslations newTranslations) k = Some merged \<and>
           (case map_of newTranslations k of
              None \<Rightarrow> merged = old
            | Some new \<Rightarrow> msgstr merged = msgstr new \<and> (msgstr new = Some [] \<or> msgstr new = Some [[], []]))"
proof -
  from assms(1) have ex: "extracted_entries newTranslations"
    by (rule parseFile_extracted)
  then have d: "distinct (map fst newTranslations)"
    by (simp add: extracted_entries_def)
  show ?thesis
  proof (cases "map_of newTranslations k")
    case None
    then have "k \<notin> fst ` set newTranslations"
      by (simp add: map_of_eq_None_iff)
    then have "map_of (mergeTranslations oldTranslations newTranslations) k = Some old"
      using assms(2) by (simp add: mergeTranslations_def json_copy_def map_of_fold_merge_step_absent)
    with None show ?thesis by simp
  next
    case (Some new)
    then have "(k, new) \<in> set newTranslations" by (rule map_of_SomeD)
    with ex have "extracted_entry k new"
      by (auto simp: extracted_entries_def list_all_iff)
    then have s: "msgstr new = Some [] \<or> msgstr new = Some [[], []]"
      by (simp add: extracted_entry_def)
    have "map_of (mergeTranslations oldTranslations newTranslations) k = Some (mergeTranslation old new)"
      using map_of_fold_merge_step_present [OF d Some, of oldTranslations] assms(2)
      by (simp add: mergeTranslations_def json_copy_def)
    moreover have "msgstr (mergeTranslation old new) = msgstr new"
      using s by (auto simp: mergeTranslation_def assign_def)
    ultimately show ?thesis using Some s by simp
  qed
qed

text \<open>
  The claim as stated fails: the translation \<open>Hallo\<close> of \<open>hello\<close> is replaced by the
  empty array when \<open>gettext("hello")\<close> is extracted again.
\<close>

theorem merge_extracted_msgstr_counterexample:
  "parseFile ''f.js'' (Parsed [] (example_program [example_hello])) ''L10n:'' example_names False
     = Inr [(''hello'', new_translation ''f.js'' [] 2 ''hello'' [])]
   \<and> map_option msgstr (map_of [(''hello'', example_entry ''hello'' [''Hallo''])] ''hello'')
     = Some (Some [''Hallo''])
   \<and> map_option msgstr
       (map_of (mergeTranslations [(''hello'', example_entry ''hello'' [''Hallo''])]
                  [(''hello'', new_translation ''f.js'' [] 2 ''hello'' [])]) ''hello'')
     = Some (Some [])"
  by code_simp

theorem merge_extracted_msgstr_witness:
  "parseFile ''f.js'' (Parsed [] (example_program [example_hello])) ''L10n:'' example_names False
     = Inr [(''hello'', new_translation ''f.js'' [] 2 ''hello'' [])]
   \<and> map_of [(''hello'', example_entry ''hello'' [''Hallo''])] ''hello''
     = Some (example_entry ''hello'' [''Hallo''])
   \<and> map_option msgstr
       (map_of (mergeTranslations [(''hello'', example_entry ''hello'' [''Hallo''])]
                  [(''hello'', new_translation ''f.js'' [] 2 ''hello'' [])]) ''hello'')
     = Some (Some [])"
proof -
  have p: "parseFile ''f.js'' (Parsed [] (example_program [example_hello])) ''L10n:'' example_names False
     = Inr [(''hello'', new_translation ''f.js'' [] 2 ''hello'' [])]"
    by code_simp
  have o: "map_of [(''hello'', example_entry ''hello'' [''Hallo''])] ''hello''
     = Some (example_entry ''hello'' [''Hallo''])"
    by simp
  show ?thesis
    using p o merge_extracted_msgstr [OF p o] by (auto simp: new_translation_def)
qed

subsection \<open>The entry of a plural and of a singular extraction\<close>





subsection \<open>Which comments are attached to a call\<close>

lemma fold_onComment:
  "fold (onComment tag) tokens acc =
     acc @ map (\<lambda>tok. \<lparr> comment_line = start_line tok, comment_value = trim (strip_slash (content tok)) \<rparr>)
            (filter (\<lambda>tok. matches_commentRegex tag (content tok) \<and> trim (strip_slash (content tok)) \<noteq> [])
               tokens)"
  by (induction tokens arbitrary: acc) (simp_all add: onComment_def Let_def)

lemma findComments_filter:
  "findComments astComments ln =
     join_lines (map comment_value
       (filter (\<lambda>node. (comment_line node = ln \<or> comment_line node + 1 = ln) \<and> comment_value node \<noteq> [])
          astComments))"
proof -
  have "[v. Some v \<leftarrow>
             map (\<lambda>node. if comment_line node = ln \<or> comment_line node + 1 = ln
                          then Some (comment_value node) else None) astComments,
           v \<noteq> []]
      = map comment_value
       (filter (\<lambda>node. (comment_line node = ln \<or> comment_line node + 1 = ln) \<and> comment_value node \<noteq> [])
          astComments)"
    by (induction astComments) auto
  then show ?thesis by (simp add: findComments_def)
qed

lemma matches_tag_iff:
  "matches_tag tag str = (\<exists>ws rest. str = ws @ tag @ rest \<and> list_all is_space ws)"
proof (induction str)
  case Nil
  then show ?case by auto
next
  case (Cons c cs)
  have prefix: "take (length tag) (c # cs) = tag \<longleftrightarrow> (\<exists>rest. c # cs = tag @ rest)"
    by (metis append_eq_conv_conj)
  show ?case
  proof
    assume "matches_tag tag (c # cs)"
    then consider "take (length tag) (c # cs) = tag" | "is_space c" "matches_tag tag cs"
      by auto
    then show "\<exists>ws rest. c # cs = ws @ tag @ rest \<and> list_all is_space ws"
    proof cases
      case 1
      then obtain rest where "c # cs = [] @ tag @ rest" using prefix by auto
      moreover have "list_all is_space []" by simp
      ultimately show ?thesis by blast
    next
      case 2
      with Cons.IH obtain ws rest where "cs = ws @ tag @ rest" "list_all is_space ws" by auto
      with 2(1) have "c # cs = (c # ws) @ tag @ rest \<and> list_all is_space (c # ws)" by simp
      then show ?thesis by blast
    qed
  next
    assume "\<exists>ws rest. c # cs = ws @ tag @ rest \<and> list_all is_space ws"
    then obtain ws rest where eq: "c # cs = ws @ tag @ rest" and sp: "list_all is_space ws" by auto
    show "matches_tag tag (c # cs)"
    proof (cases ws)
      case Nil
      with eq have "take (length tag) (c # cs) = tag" using prefix by auto
      then show ?thesis by simp
    next
      case (Cons w ws')
      with eq sp have "c = w" "cs = ws' @ tag @ rest" "is_space w" "list_all is_space ws'" by auto
      with Cons.IH show ?thesis by auto
    qed
  qed
qed

text \<open>
  C5, as the code has it. A comment is kept as a candidate only if its text matches the
  pattern (the tag after optional leading whitespace, or a leading slash) and is not
  empty once one leading slash is removed and the text is trimmed. A kept comment is
  attached to a call on line L exactly when its line is L or L - 1. The attached text is
  the comment with one leading slash removed and then trimmed: the marker slash is
  stripped, a tag is kept. The attached texts are joined with newlines in the order of
  the comments. A comment that does not match is never attached.
\<close>

theorem attached_comments:
  "comments (new_translation filename (fold (onComment tag) tokens []) ln first others) =
     Some \<lparr> translator = None,
            reference = Some (filename @ '':'' @ string_of_nat ln),
            extracted = Some (join_lines
              (map (\<lambda>tok. trim (strip_slash (content tok)))
                 (filter (\<lambda>tok. matches_commentRegex tag (content tok)
                                 \<and> trim (strip_slash (content tok)) \<noteq> []
                                 \<and> (start_line tok = ln \<or> start_line tok + 1 = ln))
                    tokens))),
            flag = None,
            previous = None \<rparr>"
proof -
  have "findComments (fold (onComment tag) tokens []) ln =
      join_lines
              (map (\<lambda>tok. trim (strip_slash (content tok)))
                 (filter (\<lambda>tok. matches_commentRegex tag (content tok)
                                 \<and> trim (strip_slash (content tok)) \<noteq> []
                                 \<and> (start_line tok = ln \<or> start_line tok + 1 = ln))
                    tokens))"
    by (simp add: fold_onComment findComments_filter filter_map comp_def conj_commute conj_left_commute)
  then show ?thesis
    by (cases others) (simp_all add: new_translation_def)
qed

text \<open>
  The claim as stated fails: the comment \<open>// L10n: hello\<close> on the line before the call
  is attached with its tag.
\<close>

theorem attached_comments_counterexample:
  "map_option extracted
     (comments (new_translation ''f.js''
        (fold (onComment ''L10n:'') [\<lparr> block = False, content = '' L10n: hello'', start_line = 1 \<rparr>] [])
        2 ''hello'' []))
   = Some (Some ''L10n: hello'')
   \<and> map_option extracted
     (comments (new_translation ''f.js''
        (fold (onComment ''L10n:'') [\<lparr> block = False, content = '' L10n: hello'', start_line = 1 \<rparr>] [])
        2 ''hello'' []))
   \<noteq> Some (Some ''hello'')"
  by code_simp

subsection \<open>Loading an existing catalog\<close>


lemma tagName_set_keyword [simp]: "tagName (set_keyword opts) = tagName opts"
  by (simp add: tagName_def set_keyword_def split: option.splits)

lemma sanity_set_keyword [simp]: "sanity (set_keyword opts) = sanity opts"
  by (simp add: set_keyword_def split: option.splits)





subsection \<open>The creation date\<close>



subsection \<open>What a run writes into its options\<close>

text \<open>
  C10, as the code has it. \<open>parse\<close> never writes to the sources, and it is a function of
  its arguments, the catalog file and the clock. It writes one field of the caller's
  options object, \<open>keyword\<close>: past the checks of the output path and of the catalog, a
  supplied list has the n-prefixed form of each of its entries appended, and a missing
  list becomes the two default names. Every other option is left as it was.
\<close>

theorem parse_writes_keyword:
  "fst (parse env sources opts) =
     (if joinExisting opts \<and> output_name opts = None then opts
      else
        (case contexts (starting_catalog env opts) of
           None \<Rightarrow> opts
         | Some ctxs \<Rightarrow>
             (case map_of ctxs [] of
                None \<Rightarrow> opts
              | Some original \<Rightarrow>
                  opts\<lparr> keyword :=
                          Some (case keyword opts of
                                  Some ks \<Rightarrow> ks @ map (\<lambda>k. ''n'' @ k) ks
                                | None \<Rightarrow> [''gettext'', ''ngettext'']) \<rparr>)))"
  by (simp add: parse_def Let_def set_keyword_def split: option.splits sum.splits)

text \<open>
  The claim as stated fails: after a run the caller's options hold a keyword list that
  they did not hold before.
\<close>

theorem parse_writes_keyword_counterexample:
  "keyword example_options = None
   \<and> keyword (fst (parse (example_environment Throws) [] example_options))
     = Some [''gettext'', ''ngettext'']"
  by code_simp

subsection \<open>Extracting a file twice\<close>

lemma indexOf_append: "x \<in> set xs \<Longrightarrow> indexOf (xs @ ys) x = indexOf xs x"
  by (induction xs) auto

lemma indexOf_less: "indexOf xs x = Some i \<Longrightarrow> i < length xs"
  by (induction xs arbitrary: i) (auto split: if_splits)

lemma filter_indexed_doubled:
  "filter_indexed deduplicateFilter (xs @ xs) = filter_indexed deduplicateFilter xs"
proof -
  let ?n = "length xs"
  let ?P = "\<lambda>arr (item, i). deduplicateFilter item i arr"
  have z: "zip (xs @ xs) [0..<length (xs @ xs)] = zip xs [0..<?n] @ zip xs [?n..<?n + ?n]"
    by (simp add: upt_add_eq_append [of 0 ?n ?n, simplified])
  have first: "filter (?P (xs @ xs)) (zip xs [0..<?n]) = filter (?P xs) (zip xs [0..<?n])"
    by (rule filter_cong) (auto simp: deduplicateFilter_def indexOf_append dest: set_zip_leftD)
  have second: "filter (?P (xs @ xs)) (zip xs [?n..<?n + ?n]) = []"
  proof -
    have "\<not> ?P (xs @ xs) p" if "p \<in> set (zip xs [?n..<?n + ?n])" for p
    proof -
      obtain item i where p: "p = (item, i)" by (cases p)
      from that p have "item \<in> set xs" and "?n \<le> i"
        by (auto dest: set_zip_leftD set_zip_rightD)
      then show ?thesis
        using p indexOf_less [of xs item i] by (auto simp: deduplicateFilter_def indexOf_append)
    qed
    then show ?thesis by (simp add: filter_empty_conv)
  qed
  show ?thesis
    unfolding filter_indexed_def z by (simp add: first second)
qed

lemma mergeComment_same: "mergeComment (Some s) (Some s) = Some (unique_lines s)"
  by (simp add: mergeComment_def unique_lines_def filter_indexed_doubled)

lemma mergeTranslation_same:
  assumes "extracted_entry k e"
  shows "mergeTranslation e e = merged_with_itself e"
proof -
  from assms obtain c r x where c: "comments e = Some c" and r: "reference c = Some r"
    and x: "extracted c = Some x" and n: "translator c = None" "flag c = None" "previous c = None"
    by (auto simp: extracted_entry_def split: option.splits)
  show ?thesis
    using c r x n
    by (simp add: mergeTranslation_def merged_with_itself_def mergeComments_def assign_def
        mergeComment_same split: option.splits)
qed


lemma update_absent: "k \<notin> fst ` set al \<Longrightarrow> AList.update k v al = al @ [(k, v)]"
  by (induction al) auto

lemma update_present: "k \<notin> fst ` set al \<Longrightarrow> AList.update k v (al @ (k, e) # rest) = al @ (k, v) # rest"
  by (induction al) auto

lemma fold_merge_step_fresh:
  "distinct (map fst (acc @ new)) \<Longrightarrow> fold merge_step new acc = acc @ new"
proof (induction new arbitrary: acc)
  case Nil
  then show ?case by simp
next
  case (Cons kv new)
  from Cons.prems have absent: "fst kv \<notin> fst ` set acc"
    by auto
  then have "map_of acc (fst kv) = None"
    by (simp add: map_of_eq_None_iff)
  then have step: "merge_step kv acc = acc @ [kv]"
    using absent by (simp add: merge_step_def update_absent)
  from Cons.prems have "distinct (map fst ((acc @ [kv]) @ new))"
    by simp
  then have "fold merge_step new (acc @ [kv]) = (acc @ [kv]) @ new"
    by (rule Cons.IH)
  then show ?case by (simp add: step)
qed

lemma fold_merge_step_again:
  "distinct (map fst (acc @ new)) \<Longrightarrow>
   fold merge_step new (acc @ new) = acc @ map (\<lambda>(k, e). (k, mergeTranslation e e)) new"
proof (induction new arbitrary: acc)
  case Nil
  then show ?case by simp
next
  case (Cons kv new)
  obtain k e where kv: "kv = (k, e)" by (cases kv)
  from Cons.prems kv have absent: "k \<notin> fst ` set acc"
    by auto
  then have "map_of (acc @ (k, e) # new) k = Some e"
    by (simp add: map_add_Some_iff map_of_eq_None_iff)
  then have step: "merge_step kv (acc @ kv # new) = (acc @ [(k, mergeTranslation e e)]) @ new"
    using absent by (simp add: merge_step_def kv update_present)
  from Cons.prems kv have "distinct (map fst ((acc @ [(k, mergeTranslation e e)]) @ new))"
    by simp
  then have rest: "fold merge_step new ((acc @ [(k, mergeTranslation e e)]) @ new)
      = (acc @ [(k, mergeTranslation e e)]) @ map (\<lambda>(k, e). (k, mergeTranslation e e)) new"
    by (rule Cons.IH)
  have "fold merge_step (kv # new) (acc @ kv # new) = fold merge_step new (merge_step kv (acc @ kv # new))"
    by simp
  also have "\<dots> = fold merge_step new ((acc @ [(k, mergeTranslation e e)]) @ new)"
    by (simp only: step)
  also note rest
  finally show ?case by (simp add: kv)
qed

text \<open>
  Merging the result of one extraction into a fresh catalog gives that result. Merging
  it a second time gives the same message-ids in the same order, and each entry as it
  was except that \<open>mergeComment\<close> drops the empty and the repeated lines of its extracted
  comment and of its reference.
\<close>

lemma merge_twice:
  assumes "parseFile filename src tag names strict = Inr T"
  shows "mergeTranslations [] T = T
    \<and> mergeTranslations (mergeTranslations [] T) T = map (\<lambda>(k, e). (k, merged_with_itself e)) T
    \<and> map fst (mergeTranslations (mergeTranslations [] T) T) = map fst T"
proof -
  from assms have ex: "extracted_entries T"
    by (rule parseFile_extracted)
  then have d: "distinct (map fst T)" and a: "\<And>k e. (k, e) \<in> set T \<Longrightarrow> extracted_entry k e"
    by (auto simp: extracted_entries_def list_all_iff)
  have once: "mergeTranslations [] T = T"
    using fold_merge_step_fresh [of "[]" T] d by (simp add: mergeTranslations_def json_copy_def)
  have "mergeTranslations T T = map (\<lambda>(k, e). (k, mergeTranslation e e)) T"
    using fold_merge_step_again [of "[]" T] d by (simp add: mergeTranslations_def json_copy_def)
  also have "\<dots> = map (\<lambda>(k, e). (k, merged_with_itself e)) T"
    by (rule map_cong) (auto dest: a mergeTranslation_same)
  finally have twice: "mergeTranslations (mergeTranslations [] T) T = map (\<lambda>(k, e). (k, merged_with_itself e)) T"
    by (simp add: once)
  have keys: "map fst (mergeTranslations (mergeTranslations [] T) T) = map fst T"
    unfolding twice by (simp add: comp_def case_prod_unfold)
  show ?thesis
    using once twice keys by simp
qed

text \<open>
  A comment that is attached twice to a call is stored twice after one extraction and
  once after two.
\<close>

lemma merge_twice_repeated_comment:
  "parseFile ''f.js'' example_noted ''L10n:'' example_names False = Inr [(''hello'', example_noted_entry)]
   \<and> mergeTranslations [] [(''hello'', example_noted_entry)] = [(''hello'', example_noted_entry)]
   \<and> mergeTranslations (mergeTranslations [] [(''hello'', example_noted_entry)]) [(''hello'', example_noted_entry)]
     \<noteq> mergeTranslations [] [(''hello'', example_noted_entry)]"
  by code_simp

subsection \<open>The same message-id twice in one file\<close>

lemma visit_second_occurrence:
  assumes "maybeExtractMsgids (CallExpression callee args ln) names strict = Inr (Some (first # others))"
    and "map_of acc first = Some existing"
  shows "visit filename astComments names strict (CallExpression callee args ln) acc = Inl TypeError"
  using assms by (simp add: accumulate_def)

text \<open>
  C2. A file with \<open>gettext("hello")\<close> on line 2 alone is extracted. With the same call
  again on line 5, the second occurrence reaches \<open>poHelper.mergeTranslation\<close>, which the
  helper module does not export: the extraction of the file raises a TypeError, and the
  second occurrence is neither merged into the entry of the first nor written over it.
\<close>

theorem second_occurrence_raises:
  "parseFile ''f.js'' (Parsed [] (example_program [example_hello])) ''L10n:'' example_names False
     = Inr [(''hello'', new_translation ''f.js'' [] 2 ''hello'' [])]
   \<and> parseFile ''f.js'' (Parsed [] (example_program [example_hello, example_hello_again]))
       ''L10n:'' example_names False
     = Inl TypeError"
  by code_simp

subsection \<open>Calls inside markup\<close>

lemma walk_all_reaches:
  assumes mono: "\<And>n s s'. M s \<Longrightarrow> f n s = Inr s' \<Longrightarrow> M s'"
    and m: "m \<in> set ns"
    and reach: "\<And>s s'. walk f m s = Inr s' \<Longrightarrow> M s'"
    and w: "walk_all f ns st = Inr st'"
  shows "M st'"
  using m w
proof (induction ns arbitrary: st)
  case Nil
  then show ?case by simp
next
  case (Cons n ns)
  from Cons.prems(2) obtain s1 where n: "walk f n st = Inr s1" and ns: "walk_all f ns s1 = Inr st'"
    by (auto elim: bind_InrE)
  show ?case
  proof (cases "m = n")
    case True
    with n have s1: "M s1" by (auto intro: reach)
    have rest: "\<And>k s s'. k \<in> set ns \<Longrightarrow> M s \<Longrightarrow> walk f k s = Inr s' \<Longrightarrow> M s'"
      using walk_invariant [where P = M and f = f] mono by blast
    show ?thesis
      by (rule walk_all_invariant [where P = M, OF rest s1 ns])
  next
    case False
    with Cons.prems(1) have "m \<in> set ns" by simp
    then show ?thesis using ns by (rule Cons.IH)
  qed
qed

lemma walk_reaches:
  assumes mono: "\<And>n s s'. M s \<Longrightarrow> f n s = Inr s' \<Longrightarrow> M s'"
    and est: "\<And>s s'. f c s = Inr s' \<Longrightarrow> M s'"
    and "walked c n" and "walk f n st = Inr st'"
  shows "M st'"
proof -
  have "walked c n \<Longrightarrow> (\<forall>s s'. f c s = Inr s' \<longrightarrow> M s') \<Longrightarrow> walk f n st = Inr st' \<Longrightarrow> M st'"
    for c n st st'
  proof (induction arbitrary: st st' rule: walked.induct)
    case (self n)
    from self.prems(2) obtain s1 where "f n s1 = Inr st'"
      by (subst (asm) walk_unfold) (auto split: if_splits elim: bind_InrE)
    with self.prems(1) show ?case by blast
  next
    case (below m n c)
    from below.prems(2) obtain s1 where
      children: "walk_all f (walked_children n) st = Inr s1" and self: "f n s1 = Inr st'"
      by (subst (asm) walk_unfold) (auto split: if_splits elim: bind_InrE)
    have reach: "\<And>s s'. walk f m s = Inr s' \<Longrightarrow> M s'"
      using below.IH below.prems(1) by blast
    have "M s1"
      by (rule walk_all_reaches [where M = M, OF mono below.hyps(1) reach children])
    then show ?case using self by (rule mono)
  qed
  then show ?thesis using assms(3,4) est by blast
qed

lemma accumulate_keys:
  assumes "accumulate t acc = Inr acc'"
  shows "fst ` set acc' = insert (msgid t) (fst ` set acc)"
proof -
  from assms have "acc' = AList.update (msgid t) t acc"
    by (auto simp: accumulate_def split: option.splits)
  then show ?thesis by (simp add: dom_update)
qed

lemma visit_keeps_keys:
  assumes "k \<in> fst ` set acc" and "visit filename astComments names strict n acc = Inr acc'"
  shows "k \<in> fst ` set acc'"
proof (cases n)
  case (CallExpression callee args ln)
  with assms show ?thesis
    by (auto split: sum.splits option.splits list.splits dest!: accumulate_keys)
qed (use assms in simp_all)

lemma visit_adds_key:
  assumes "maybeExtractMsgids c names strict = Inr (Some (first # others))"
    and "visit filename astComments names strict c acc = Inr acc'"
  shows "first \<in> fst ` set acc'"
proof (cases c)
  case (CallExpression callee args ln)
  with assms show ?thesis
    by (auto dest!: accumulate_keys)
qed (use assms in \<open>simp_all add: maybeExtractMsgids_def\<close>)

lemma walked_call_extracted:
  assumes "parseFile filename (Parsed tokens ast) tag names strict = Inr T"
    and "walked c ast"
    and "maybeExtractMsgids c names strict = Inr (Some (first # others))"
  shows "first \<in> fst ` set T"
proof -
  let ?visit = "visit filename (fold (onComment tag) tokens []) names strict"
  from assms(1) have w: "walk ?visit ast [] = Inr T"
    by (simp add: parseFile_def)
  show ?thesis
  proof (rule walk_reaches [where M = "\<lambda>acc. first \<in> fst ` set acc" and f = ?visit, OF _ _ assms(2) w])
    show "\<And>n s s'. first \<in> fst ` set s \<Longrightarrow> ?visit n s = Inr s' \<Longrightarrow> first \<in> fst ` set s'"
      by (rule visit_keeps_keys)
    show "\<And>s s'. ?visit c s = Inr s' \<Longrightarrow> first \<in> fst ` set s'"
      using assms(3) by (rule visit_adds_key)
  qed
qed

text \<open>
  C9. With the attribute \<open>title={gettext("hello")}\<close> alone, the call in the attribute and
  the call in the children are both extracted. With the attribute \<open>disabled\<close> before it,
  which has no value, the walk raises a TypeError at \<open>node.value.type\<close> and nothing of the
  file is extracted. The lemma \<open>walked_call_extracted\<close> above is the claim for every file
  whose walk does not raise.
\<close>

theorem valueless_attribute:
  "parseFile ''f.js''
     (Parsed [] (example_markup [JSXAttribute (Some (JSXExpressionContainer example_hello))]))
     ''L10n:'' example_names False
   = Inr [(''hello'', new_translation ''f.js'' [] 2 ''hello'' []),
          (''bye'', new_translation ''f.js'' [] 3 ''bye'' [])]
   \<and> parseFile ''f.js''
     (Parsed [] (example_markup [JSXAttribute None, JSXAttribute (Some (JSXExpressionContainer example_hello))]))
     ''L10n:'' example_names False
   = Inl TypeError"
  by code_simp

end
